theory Spec2Isabelle
  imports Complex_Main "HOL-Library.Sublist"
begin

section \<open>Python dictionaries with insertion order\<close>

text \<open>
  A Python \<^verbatim>\<open>dict\<close> iterates in the order in which its keys were first inserted;
  assigning to a key that is already present replaces the value and keeps the key's
  position. The loader's package cache \<^verbatim>\<open>_packages\<close> and the detector's
  \<^verbatim>\<open>knowledge_index\<close> are iterated (\<^verbatim>\<open>.values()\<close>, \<^verbatim>\<open>.items()\<close>), so the order
  is part of the model: a dictionary is an association list.
\<close>

type_synonym 'v pydict = "(string \<times> 'v) list"

fun dict_set :: "string \<Rightarrow> 'v \<Rightarrow> 'v pydict \<Rightarrow> 'v pydict" where
  "dict_set k v [] = [(k, v)]"
| "dict_set k v ((k', v') # d) =
     (if k' = k then (k, v) # d else (k', v') # dict_set k v d)"

definition dict_keys :: "'v pydict \<Rightarrow> string list" where
  "dict_keys d = map fst d"

definition dict_values :: "'v pydict \<Rightarrow> 'v list" where
  "dict_values d = map snd d"

definition dict_get :: "'v pydict \<Rightarrow> string \<Rightarrow> 'v option" where
  "dict_get d k = map_of d k"

definition dict_has :: "'v pydict \<Rightarrow> string \<Rightarrow> bool" where
  "dict_has d k = (k \<in> set (dict_keys d))"

section \<open>Data model of the knowledge loader\<close>

text \<open>
  A knowledge block is a JSON object read with \<^verbatim>\<open>block.get(key, default)\<close>: every key
  may be absent, so every field is an option and the default is applied where the block
  is read. Only \<^verbatim>\<open>block["id"]\<close> is read without a default. Numbers are modelled by
  rationals (finite, ordered as the floats they stand for).
\<close>

record block =
  block_id :: "string option"
  conteudo :: "string option"
  nivel_complexidade :: "string option"
  persona_alvo :: "string option"
  tags :: "string list option"
  regulatory_flag :: "bool option"
  embedding_priority :: "rat option"
  retrieval_weight :: "rat option"
  vector_ready :: "bool option"
  cross_package_reference :: "string list option"
  knowledge_version :: "string option"
  categoria_macro :: "string option"
  subcategoria :: "string option"

record package =
  knowledge_blocks :: "block list option"

text \<open>\<^verbatim>\<open>pkg.get("knowledge_blocks", [])\<close>\<close>

definition pkg_blocks :: "package \<Rightarrow> block list" where
  "pkg_blocks p = (case knowledge_blocks p of None \<Rightarrow> [] | Some bs \<Rightarrow> bs)"

record pkg_meta =
  segmento :: string
  file_rel :: string
  hash_integridade :: string

record manifest =
  manifest_packages :: "pkg_meta list option"

text \<open>\<^verbatim>\<open>self.manifest.get("packages", [])\<close>\<close>

definition manifest_pkgs :: "manifest \<Rightarrow> pkg_meta list" where
  "manifest_pkgs m = (case manifest_packages m of None \<Rightarrow> [] | Some ps \<Rightarrow> ps)"

subsection \<open>The files under the base path\<close>

text \<open>
  The loader observes two things of a package file: the SHA256 hex digest of its bytes
  (\<^verbatim>\<open>_validate_hash\<close>) and what \<^verbatim>\<open>json.load\<close> makes of it. A file is modelled by
  these two observations; the disk is a parameter of every operation, since the files
  may change between two calls.
\<close>

datatype 'a parse = Malformed | Parsed 'a

record pkg_file =
  sha256_hex :: string
  json_doc :: "package parse"

record disk =
  manifest_file :: "manifest parse option"
  package_files :: "string \<Rightarrow> pkg_file option"

datatype error =
    ManifestNotFound
  | PackageFileNotFound string
  | SegmentNotFound string
  | IntegrityError string
  | JSONDecodeError
  | FileNotFoundError string
  | KeyError string

text \<open>
  The first three are raised as \<^verbatim>\<open>KnowledgeLoaderError\<close> (manifest not found, package
  file not found, segment not in the manifest); \<^verbatim>\<open>IntegrityError\<close> is its subclass,
  carrying the segment.
\<close>

subsection \<open>Loader state\<close>

text \<open>
  The ghost field \<open>trace\<close> logs every write to an attribute of the loader, in program
  order; no operation reads it.
\<close>

datatype event =
    CacheInvalidated
  | CacheFilled
  | PackageStored string
  | PackagesCleared
  | ManifestCached
  | ManifestCleared

record loader =
  validate_integrity :: bool
  manifest_c :: "manifest option"
  packages :: "package pydict"
  blocks_cache :: "block list option"
  trace :: "event list"

definition init :: "bool \<Rightarrow> loader" where
  "init v = \<lparr>validate_integrity = v, manifest_c = None, packages = [],
             blocks_cache = None, trace = []\<rparr>"

definition invalidate :: "loader \<Rightarrow> loader" where
  "invalidate st = st\<lparr>blocks_cache := None, trace := trace st @ [CacheInvalidated]\<rparr>"

definition store_package :: "string \<Rightarrow> package \<Rightarrow> loader \<Rightarrow> loader" where
  "store_package segment p st =
     st\<lparr>packages := dict_set segment p (packages st),
        trace := trace st @ [PackageStored segment]\<rparr>"

section \<open>Loading\<close>

definition load_manifest :: "disk \<Rightarrow> error + manifest" where
  "load_manifest d =
     (case manifest_file d of
        None \<Rightarrow> Inl ManifestNotFound
      | Some Malformed \<Rightarrow> Inl JSONDecodeError
      | Some (Parsed m) \<Rightarrow> Inr m)"

text \<open>The property \<^verbatim>\<open>manifest\<close>: read once, then cached.\<close>

definition get_manifest :: "disk \<Rightarrow> loader \<Rightarrow> (error + manifest) \<times> loader" where
  "get_manifest d st =
     (case manifest_c st of
        Some m \<Rightarrow> (Inr m, st)
      | None \<Rightarrow>
          (case load_manifest d of
             Inl e \<Rightarrow> (Inl e, st)
           | Inr m \<Rightarrow> (Inr m, st\<lparr>manifest_c := Some m, trace := trace st @ [ManifestCached]\<rparr>)))"

definition validate_hash :: "disk \<Rightarrow> string \<Rightarrow> string \<Rightarrow> string \<Rightarrow> error + unit" where
  "validate_hash d path expected_hash segment =
     (case package_files d path of
        None \<Rightarrow> Inl (FileNotFoundError path)
      | Some f \<Rightarrow>
          if sha256_hex f \<noteq> expected_hash then Inl (IntegrityError segment) else Inr ())"

text \<open>\<^verbatim>\<open>with open(pkg_path) as f: json.load(f)\<close>\<close>

definition read_json :: "disk \<Rightarrow> string \<Rightarrow> error + package" where
  "read_json d path =
     (case package_files d path of
        None \<Rightarrow> Inl (FileNotFoundError path)
      | Some f \<Rightarrow> (case json_doc f of Malformed \<Rightarrow> Inl JSONDecodeError | Parsed p \<Rightarrow> Inr p))"

text \<open>The part of both loading paths after the existence check: verify, parse, store.\<close>

definition fetch_package :: "disk \<Rightarrow> pkg_meta \<Rightarrow> loader \<Rightarrow> (error + unit) \<times> loader" where
  "fetch_package d pm st =
     (case (if validate_integrity st
            then validate_hash d (file_rel pm) (hash_integridade pm) (segmento pm)
            else Inr ()) of
        Inl e \<Rightarrow> (Inl e, st)
      | Inr _ \<Rightarrow>
          (case read_json d (file_rel pm) of
             Inl e \<Rightarrow> (Inl e, st)
           | Inr p \<Rightarrow> (Inr (), store_package (segmento pm) p st)))"

text \<open>The loop of \<^verbatim>\<open>load_all_packages\<close> over the manifest's descriptors.\<close>

fun load_loop :: "disk \<Rightarrow> pkg_meta list \<Rightarrow> loader \<Rightarrow> (error + unit) \<times> loader" where
  "load_loop d [] st = (Inr (), st)"
| "load_loop d (pm # pms) st =
     (if package_files d (file_rel pm) = None then (Inl (PackageFileNotFound (file_rel pm)), st)
      else
        (case fetch_package d pm st of
           (Inl e, st') \<Rightarrow> (Inl e, st')
         | (Inr _, st') \<Rightarrow> load_loop d pms st'))"

definition load_all_packages :: "disk \<Rightarrow> loader \<Rightarrow> (error + package pydict) \<times> loader" where
  "load_all_packages d st =
     (case get_manifest d (invalidate st) of
        (Inl e, st1) \<Rightarrow> (Inl e, st1)
      | (Inr m, st1) \<Rightarrow>
          (case load_loop d (manifest_pkgs m) st1 of
             (Inl e, st2) \<Rightarrow> (Inl e, st2)
           | (Inr _, st2) \<Rightarrow> (Inr (packages st2), st2)))"

text \<open>\<^verbatim>\<open>self._packages[segment]\<close>\<close>

definition cached_package :: "string \<Rightarrow> loader \<Rightarrow> (error + package) \<times> loader" where
  "cached_package segment st =
     (case dict_get (packages st) segment of
        None \<Rightarrow> (Inl (KeyError segment), st)
      | Some p \<Rightarrow> (Inr p, st))"

text \<open>
  The loop of \<^verbatim>\<open>load_package\<close>: the first descriptor of that segment decides. There is
  no existence check here: a missing file is the \<^verbatim>\<open>FileNotFoundError\<close> of \<^verbatim>\<open>open\<close>.
\<close>

fun find_segment :: "disk \<Rightarrow> string \<Rightarrow> pkg_meta list \<Rightarrow> loader \<Rightarrow> (error + package) \<times> loader" where
  "find_segment d segment [] st = (Inl (SegmentNotFound segment), st)"
| "find_segment d segment (pm # pms) st =
     (if segmento pm = segment then
        (if \<not> dict_has (packages st) segment then
           (case fetch_package d pm st of
              (Inl e, st') \<Rightarrow> (Inl e, st')
            | (Inr _, st') \<Rightarrow> cached_package segment (invalidate st'))
         else cached_package segment st)
      else find_segment d segment pms st)"

definition load_package :: "disk \<Rightarrow> string \<Rightarrow> loader \<Rightarrow> (error + package) \<times> loader" where
  "load_package d segment st =
     (case get_manifest d st of
        (Inl e, st1) \<Rightarrow> (Inl e, st1)
      | (Inr m, st1) \<Rightarrow> find_segment d segment (manifest_pkgs m) st1)"

definition reload :: "disk \<Rightarrow> loader \<Rightarrow> (error + unit) \<times> loader" where
  "reload d st =
     (case load_all_packages d
             (st\<lparr>manifest_c := None, packages := [], blocks_cache := None,
                 trace := trace st @ [ManifestCleared, PackagesCleared, CacheInvalidated]\<rparr>) of
        (Inl e, st') \<Rightarrow> (Inl e, st')
      | (Inr _, st') \<Rightarrow> (Inr (), st'))"

text \<open>The constructor, with its \<^verbatim>\<open>auto_load\<close> flag.\<close>

definition new_loader :: "disk \<Rightarrow> bool \<Rightarrow> bool \<Rightarrow> (error + unit) \<times> loader" where
  "new_loader d v auto_load =
     (if auto_load then
        (case load_all_packages d (init v) of
           (Inl e, st) \<Rightarrow> (Inl e, st)
         | (Inr _, st) \<Rightarrow> (Inr (), st))
      else (Inr (), init v))"

section \<open>The flat block cache and the source of a query\<close>

definition all_blocks :: "loader \<Rightarrow> block list \<times> loader" where
  "all_blocks st =
     (case blocks_cache st of
        Some bs \<Rightarrow> (bs, st)
      | None \<Rightarrow>
          (let bs = concat (map pkg_blocks (dict_values (packages st)))
           in (bs, st\<lparr>blocks_cache := Some bs, trace := trace st @ [CacheFilled]\<rparr>)))"

definition get_blocks_by_segment :: "disk \<Rightarrow> string \<Rightarrow> loader \<Rightarrow> (error + block list) \<times> loader" where
  "get_blocks_by_segment d segment st =
     (case (if \<not> dict_has (packages st) segment
            then (case load_package d segment st of
                    (Inl e, st') \<Rightarrow> (Inl e, st')
                  | (Inr _, st') \<Rightarrow> (Inr (), st'))
            else (Inr (), st)) of
        (Inl e, st') \<Rightarrow> (Inl e, st')
      | (Inr _, st') \<Rightarrow>
          (case cached_package segment st' of
             (Inl e, st'') \<Rightarrow> (Inl e, st'')
           | (Inr p, st'') \<Rightarrow> (Inr (pkg_blocks p), st'')))"


section \<open>Strings\<close>

text \<open>
  Strings are lists of 8-bit characters. \<^verbatim>\<open>str.lower\<close> is modelled on the ASCII
  letters (other characters are left as they are); white space is what
  \<^verbatim>\<open>str.isspace\<close> accepts in that range.
\<close>

definition is_space :: "char \<Rightarrow> bool" where
  "is_space c = ((of_char c :: nat) \<in> {9, 10, 11, 12, 13, 28, 29, 30, 31, 32, 133, 160})"

definition lower_char :: "char \<Rightarrow> char" where
  "lower_char c =
     (let n = (of_char c :: nat) in if 65 \<le> n \<and> n \<le> 90 then char_of (n + 32) else c)"

definition py_lower :: "string \<Rightarrow> string" where
  "py_lower s = map lower_char s"

text \<open>\<^verbatim>\<open>s.strip()\<close> and \<^verbatim>\<open>s.strip(chars)\<close>\<close>

definition strip_where :: "(char \<Rightarrow> bool) \<Rightarrow> string \<Rightarrow> string" where
  "strip_where P s = rev (dropWhile P (rev (dropWhile P s)))"

definition py_strip :: "string \<Rightarrow> string" where
  "py_strip s = strip_where is_space s"

definition strip_chars :: "string \<Rightarrow> string \<Rightarrow> string" where
  "strip_chars chars s = strip_where (\<lambda>c. c \<in> set chars) s"

text \<open>\<^verbatim>\<open>s.split()\<close>: the maximal runs of characters that are not white space.\<close>

fun split_acc :: "string \<Rightarrow> string \<Rightarrow> string list" where
  "split_acc w [] = (if w = [] then [] else [w])"
| "split_acc w (c # cs) =
     (if is_space c then (if w = [] then split_acc [] cs else w # split_acc [] cs)
      else split_acc (w @ [c]) cs)"

definition py_split :: "string \<Rightarrow> string list" where
  "py_split s = split_acc [] s"







section \<open>Queries\<close>






subsection \<open>Preparing documents for vectorization\<close>



definition str_or :: "string option \<Rightarrow> string \<Rightarrow> string" where
  "str_or v dflt = (case v of None \<Rightarrow> dflt | Some s \<Rightarrow> s)"





section \<open>The operations of a loader, and the states they reach\<close>

text \<open>
  A caller drives a loader through its public methods. Of these, the query methods
  change the state only through \<^verbatim>\<open>_all_blocks\<close> and \<^verbatim>\<open>get_blocks_by_segment\<close>; every
  call may see a different disk.
\<close>

datatype operation =
    LoadAll
  | LoadPackage string
  | Reload
  | AllBlocks
  | BlocksBySegment string

fun exec :: "disk \<Rightarrow> operation \<Rightarrow> loader \<Rightarrow> loader" where
  "exec d LoadAll st = snd (load_all_packages d st)"
| "exec d (LoadPackage segment) st = snd (load_package d segment st)"
| "exec d Reload st = snd (reload d st)"
| "exec d AllBlocks st = snd (all_blocks st)"
| "exec d (BlocksBySegment segment) st = snd (get_blocks_by_segment d segment st)"

inductive reachable :: "loader \<Rightarrow> bool" where
  fresh: "reachable (init v)"
| step: "reachable st \<Longrightarrow> reachable (exec d op st)"

text \<open>The blocks of the packages that are loaded, in the order of the package cache.\<close>

definition loaded_blocks :: "loader \<Rightarrow> block list" where
  "loaded_blocks st = concat (map pkg_blocks (dict_values (packages st)))"

section \<open>The delta detector\<close>

text \<open>
  The files under \<^verbatim>\<open>knowledge_packages/\<close> hold blocks of another shape. A file that
  cannot be read or parsed is skipped (\<open>Malformed\<close>); so is a document without the key
  \<^verbatim>\<open>blocks\<close> (\<open>Parsed None\<close>).
\<close>

record legacy_block =
  lb_id :: "string option"
  lb_content :: "string option"
  lb_title :: "string option"
  lb_segment :: "string option"

text \<open>
  SHA256 is modelled as a digest constructor: two digests are equal exactly when the
  hashed texts are (no collisions).
\<close>

datatype digest = SHA256 string

record index_entry =
  entry_content :: string
  entry_title :: string
  entry_segment :: string
  entry_hash :: digest
  entry_keywords :: "string list"

record detector =
  knowledge_index :: "index_entry pydict"
  similarity_threshold :: rat

definition normalize :: "string \<Rightarrow> string" where
  "normalize t = py_strip (py_lower t)"

definition hash_text :: "string \<Rightarrow> digest" where
  "hash_text t = SHA256 (normalize t)"

definition stopwords :: "string list" where
  "stopwords =
     [''o'', ''a'', ''de'', ''do'', ''da'', ''em'', ''para'', ''com'', ''por'', ''que'',
      ''the'', ''is'', ''at'', ''which'', ''on'', ''and'', ''or'', ''an'', ''as'', ''are'']"

text \<open>
  \<^verbatim>\<open>list(set(keywords))[:top_n]\<close>: Python leaves the order of a set open; the model
  keeps the order of first occurrence. No result below depends on it.
\<close>

definition extract_keywords :: "string \<Rightarrow> nat \<Rightarrow> string list" where
  "extract_keywords t top_n =
     (let ws = py_split (py_lower t);
          keywords = map (strip_chars ''.,!?;:'')
                       (filter (\<lambda>w. length w > 4 \<and> py_lower w \<notin> set stopwords) ws)
      in take top_n (remdups keywords))"

text \<open>The source returns the constant 0.0 ("simplified implementation").\<close>

definition calculate_keyword_overlap :: "string list \<Rightarrow> rat" where
  "calculate_keyword_overlap keywords = 0"

text \<open>
  \<^verbatim>\<open>difflib.SequenceMatcher(None, t1, t2).ratio()\<close> is library code: it is the
  parameter \<open>ratio\<close> of the functions that use it.
\<close>

definition calculate_similarity :: "(string \<Rightarrow> string \<Rightarrow> rat) \<Rightarrow> string \<Rightarrow> string \<Rightarrow> rat" where
  "calculate_similarity ratio text1 text2 =
     (if text1 = [] \<or> text2 = [] then 0 else ratio (normalize text1) (normalize text2))"

definition index_block :: "legacy_block \<Rightarrow> index_entry pydict \<Rightarrow> index_entry pydict" where
  "index_block b index =
     (let bid = str_or (lb_id b) [] in
      if bid \<noteq> [] then
        dict_set bid
          \<lparr>entry_content = str_or (lb_content b) [],
           entry_title = str_or (lb_title b) [],
           entry_segment = str_or (lb_segment b) [],
           entry_hash = hash_text (str_or (lb_content b) []),
           entry_keywords = extract_keywords (str_or (lb_content b) []) 10\<rparr>
          index
      else index)"

definition index_file :: "legacy_block list option parse \<Rightarrow> index_entry pydict \<Rightarrow> index_entry pydict" where
  "index_file f index =
     (case f of
        Malformed \<Rightarrow> index
      | Parsed None \<Rightarrow> index
      | Parsed (Some bs) \<Rightarrow> fold index_block bs index)"

definition build_knowledge_index :: "legacy_block list option parse list \<Rightarrow> index_entry pydict" where
  "build_knowledge_index files = fold index_file files []"

definition new_detector :: "legacy_block list option parse list \<Rightarrow> detector" where
  "new_detector files =
     \<lparr>knowledge_index = build_knowledge_index files, similarity_threshold = 85 / 100\<rparr>"

text \<open>
  The new content is a dictionary of string fields;
  \<^verbatim>\<open>new_content.get("content", "") or new_content.get("text", "")\<close>.
\<close>

definition content_text :: "string pydict \<Rightarrow> string" where
  "content_text new_content =
     (let c = str_or (dict_get new_content ''content'') [] in
      if c \<noteq> [] then c else str_or (dict_get new_content ''text'') [])"

definition max_similarity :: "(string \<Rightarrow> string \<Rightarrow> rat) \<Rightarrow> index_entry pydict \<Rightarrow> string \<Rightarrow> rat" where
  "max_similarity ratio index t =
     fold (\<lambda>(bid, block_data) m.
             let similarity = calculate_similarity ratio t (entry_content block_data)
             in if similarity > m then similarity else m)
       index 0"

definition has_significant_changes ::
  "(string \<Rightarrow> string \<Rightarrow> rat) \<Rightarrow> detector \<Rightarrow> string pydict \<Rightarrow> bool" where
  "has_significant_changes ratio det new_content =
     (if new_content = [] then False
      else
        let t = content_text new_content in
        if t = [] then False
        else if list_ex (\<lambda>(bid, block_data). entry_hash block_data = hash_text t)
                  (knowledge_index det) then False
        else if max_similarity ratio (knowledge_index det) t > similarity_threshold det then False
        else if calculate_keyword_overlap (extract_keywords t 10) > 9 / 10 then False
        else True)"

section \<open>Notions used by the statements\<close>

text \<open>
  What every state reached through the methods satisfies: a cached segment is a segment
  of the cached manifest, and the flat cache is either stale (\<open>None\<close>) or the blocks of
  the cached packages.
\<close>

definition loader_inv :: "loader \<Rightarrow> bool" where
  "loader_inv st =
     ((\<forall>seg \<in> set (dict_keys (packages st)).
         \<exists>m. manifest_c st = Some m \<and> seg \<in> segmento ` set (manifest_pkgs m))
      \<and> (blocks_cache st = None \<or> blocks_cache st = Some (loaded_blocks st)))"

text \<open>
  A descriptor loads: its file exists, its digest is the recorded one when hashes are
  validated, and the file parses.
\<close>

definition loadable :: "bool \<Rightarrow> disk \<Rightarrow> pkg_meta \<Rightarrow> bool" where
  "loadable v d pm =
     (case package_files d (file_rel pm) of
        None \<Rightarrow> False
      | Some f \<Rightarrow> (v \<longrightarrow> sha256_hex f = hash_integridade pm) \<and> json_doc f \<noteq> Malformed)"

text \<open>The \<^verbatim>\<open>knowledge_blocks\<close> of the package in a descriptor's file.\<close>

definition file_blocks :: "disk \<Rightarrow> pkg_meta \<Rightarrow> block list" where
  "file_blocks d pm =
     (case package_files d (file_rel pm) of
        None \<Rightarrow> []
      | Some f \<Rightarrow> (case json_doc f of Malformed \<Rightarrow> [] | Parsed p \<Rightarrow> pkg_blocks p))"

text \<open>Example data: two packages \<open>a\<close> and \<open>b\<close>, their manifest and some disks.\<close>

definition mk_block :: "string \<Rightarrow> string \<Rightarrow> rat \<Rightarrow> bool \<Rightarrow> block" where
  "mk_block i c p vr =
     \<lparr>block_id = Some i, conteudo = Some c, nivel_complexidade = Some ''basico'',
      persona_alvo = Some ''gestor'', tags = Some [], regulatory_flag = Some False,
      embedding_priority = Some p, retrieval_weight = Some 1, vector_ready = Some vr,
      cross_package_reference = None, knowledge_version = None, categoria_macro = None,
      subcategoria = None\<rparr>"

definition ex_block_a :: block where
  "ex_block_a = mk_block ''a1'' ''imposto'' (9 / 10) True"

definition ex_block_b :: block where
  "ex_block_b = mk_block ''b1'' ''taxa'' (9 / 10) True"

definition ex_pkg_a :: package where
  "ex_pkg_a = \<lparr>knowledge_blocks = Some [ex_block_a]\<rparr>"

definition ex_pkg_b :: package where
  "ex_pkg_b = \<lparr>knowledge_blocks = Some [ex_block_b]\<rparr>"

definition ex_meta_a :: pkg_meta where
  "ex_meta_a = \<lparr>segmento = ''a'', file_rel = ''a.json'', hash_integridade = ''ha''\<rparr>"

definition ex_meta_b :: pkg_meta where
  "ex_meta_b = \<lparr>segmento = ''b'', file_rel = ''b.json'', hash_integridade = ''hb''\<rparr>"

definition ex_manifest :: manifest where
  "ex_manifest = \<lparr>manifest_packages = Some [ex_meta_a, ex_meta_b]\<rparr>"

definition ex_file_a :: pkg_file where
  "ex_file_a = \<lparr>sha256_hex = ''ha'', json_doc = Parsed ex_pkg_a\<rparr>"

definition ex_file_b :: pkg_file where
  "ex_file_b = \<lparr>sha256_hex = ''hb'', json_doc = Parsed ex_pkg_b\<rparr>"

definition ex_file_a_changed :: pkg_file where
  "ex_file_a_changed = \<lparr>sha256_hex = ''hx'', json_doc = Parsed \<lparr>knowledge_blocks = Some []\<rparr>\<rparr>"

definition ex_file_b_changed :: pkg_file where
  "ex_file_b_changed = \<lparr>sha256_hex = ''hy'', json_doc = Parsed \<lparr>knowledge_blocks = Some []\<rparr>\<rparr>"

definition mk_disk :: "(string \<times> pkg_file) list \<Rightarrow> disk" where
  "mk_disk fs = \<lparr>manifest_file = Some (Parsed ex_manifest), package_files = map_of fs\<rparr>"

definition ex_disk :: disk where
  "ex_disk = mk_disk [(''a.json'', ex_file_a), (''b.json'', ex_file_b)]"

definition ex_disk_a_changed :: disk where
  "ex_disk_a_changed = mk_disk [(''a.json'', ex_file_a_changed), (''b.json'', ex_file_b)]"

definition ex_disk_b_changed :: disk where
  "ex_disk_b_changed = mk_disk [(''a.json'', ex_file_a), (''b.json'', ex_file_b_changed)]"

definition ex_disk_b_missing :: disk where
  "ex_disk_b_missing = mk_disk [(''a.json'', ex_file_a)]"

definition ex_disk_a_missing_b_changed :: disk where
  "ex_disk_a_missing_b_changed = mk_disk [(''b.json'', ex_file_b_changed)]"

definition ex_disk_a_changed_b_missing :: disk where
  "ex_disk_a_changed_b_missing = mk_disk [(''a.json'', ex_file_a_changed)]"

text \<open>A loader with hash validation after one successful \<^verbatim>\<open>load_all_packages\<close>.\<close>

definition ex_loaded :: loader where
  "ex_loaded = snd (load_all_packages ex_disk (init True))"

text \<open>Segment \<open>b\<close> loaded lazily first, then everything.\<close>

definition ex_b_first :: loader where
  "ex_b_first = snd (load_all_packages ex_disk (snd (load_package ex_disk ''b'' (init True))))"



text \<open>
  The ratio used in the examples: 1 on equal texts and 0 otherwise, which is what
  \<^verbatim>\<open>SequenceMatcher\<close> gives on the texts of the examples (equal, or without a common
  character).
\<close>

definition ex_ratio :: "string \<Rightarrow> string \<Rightarrow> rat" where
  "ex_ratio a b = (if a = b then 1 else 0)"

definition ex_legacy_files :: "legacy_block list option parse list" where
  "ex_legacy_files =
     [Parsed (Some [\<lparr>lb_id = Some ''k1'', lb_content = Some ''Taxa Anual'', lb_title = None,
                     lb_segment = None\<rparr>,
                    \<lparr>lb_id = Some ''k2'', lb_content = None, lb_title = None,
                     lb_segment = None\<rparr>]),
      Malformed]"

definition ex_detector :: detector where
  "ex_detector = new_detector ex_legacy_files"









definition ex_empty_fields :: "string pydict" where
  "ex_empty_fields = [(''content'', []), (''text'', [])]"

section \<open>Properties\<close>

lemma dict_keys_dict_set_list:
  "dict_keys (dict_set k v d) = (if k \<in> set (dict_keys d) then dict_keys d else dict_keys d @ [k])"
proof (induction d)
  case Nil
  show ?case by (simp add: dict_keys_def)
next
  case (Cons x d)
  obtain k' v' where x: "x = (k', v')" by (cases x)
  from Cons show ?case unfolding x by (cases "k' = k") (auto simp: dict_keys_def)
qed

lemma dict_keys_dict_set: "set (dict_keys (dict_set k v d)) = insert k (set (dict_keys d))"
  by (auto simp: dict_keys_dict_set_list)

lemma dict_get_dict_set: "dict_get (dict_set k v d) k' = (if k' = k then Some v else dict_get d k')"
  by (induction d) (auto simp: dict_get_def)

lemma dict_has_get: "dict_has d k \<longleftrightarrow> dict_get d k \<noteq> None"
  by (induction d) (auto simp: dict_has_def dict_get_def dict_keys_def)

lemma get_manifest_frame:
  "get_manifest d st = (r, st') \<Longrightarrow>
     packages st' = packages st \<and> blocks_cache st' = blocks_cache st
     \<and> validate_integrity st' = validate_integrity st"
  by (auto simp: get_manifest_def split: option.splits sum.splits)

lemma get_manifest_Inr: "get_manifest d st = (Inr m, st') \<Longrightarrow> manifest_c st' = Some m"
  by (auto simp: get_manifest_def split: option.splits sum.splits)

lemma get_manifest_Inl: "get_manifest d st = (Inl e, st') \<Longrightarrow> st' = st"
  by (auto simp: get_manifest_def split: option.splits sum.splits)

lemma get_manifest_cached: "manifest_c st = Some m \<Longrightarrow> get_manifest d st = (Inr m, st)"
  by (simp add: get_manifest_def)

lemma fetch_package_cases:
  "fetch_package d pm st = (r, st') \<Longrightarrow>
     (\<exists>e. r = Inl e \<and> st' = st) \<or> (\<exists>p. r = Inr () \<and> st' = store_package (segmento pm) p st)"
  by (auto simp: fetch_package_def split: sum.splits if_splits)

lemma store_package_simps [simp]:
  "packages (store_package s p st) = dict_set s p (packages st)"
  "manifest_c (store_package s p st) = manifest_c st"
  "blocks_cache (store_package s p st) = blocks_cache st"
  "validate_integrity (store_package s p st) = validate_integrity st"
  "trace (store_package s p st) = trace st @ [PackageStored s]"
  by (simp_all add: store_package_def)

lemma invalidate_simps [simp]:
  "packages (invalidate st) = packages st"
  "manifest_c (invalidate st) = manifest_c st"
  "blocks_cache (invalidate st) = None"
  "validate_integrity (invalidate st) = validate_integrity st"
  "trace (invalidate st) = trace st @ [CacheInvalidated]"
  by (simp_all add: invalidate_def)

lemma load_loop_segs:
  "load_loop d pms st = (r, st') \<Longrightarrow> manifest_c st = Some m \<Longrightarrow> blocks_cache st = None \<Longrightarrow>
   set pms \<subseteq> set (manifest_pkgs m) \<Longrightarrow>
   set (dict_keys (packages st)) \<subseteq> segmento ` set (manifest_pkgs m) \<Longrightarrow>
   manifest_c st' = Some m \<and> blocks_cache st' = None \<and>
   set (dict_keys (packages st')) \<subseteq> segmento ` set (manifest_pkgs m)"
proof (induction pms arbitrary: st)
  case Nil
  then show ?case by simp
next
  case (Cons pm pms)
  show ?case
  proof (cases "package_files d (file_rel pm) = None")
    case True
    with Cons.prems show ?thesis by simp
  next
    case False
    obtain r1 st1 where f: "fetch_package d pm st = (r1, st1)" by (cases "fetch_package d pm st")
    from fetch_package_cases [OF f] show ?thesis
    proof
      assume "\<exists>e. r1 = Inl e \<and> st1 = st"
      with Cons.prems False f show ?thesis by auto
    next
      assume "\<exists>p. r1 = Inr () \<and> st1 = store_package (segmento pm) p st"
      then obtain p where r1: "r1 = Inr ()" and st1: "st1 = store_package (segmento pm) p st" by blast
      from Cons.prems False f r1 have l: "load_loop d pms st1 = (r, st')" by simp
      have "set (dict_keys (packages st1)) \<subseteq> segmento ` set (manifest_pkgs m)"
        using Cons.prems st1 by (auto simp: dict_keys_dict_set)
      then show ?thesis
        using Cons.IH [OF l] Cons.prems st1 by simp
    qed
  qed
qed

lemma cached_package_state: "cached_package seg st = (r, st') \<Longrightarrow> st' = st"
  by (auto simp: cached_package_def split: option.splits)

lemma find_segment_cases:
  "find_segment d seg pms st = (r, st') \<Longrightarrow>
     st' = st \<or> (seg \<in> segmento ` set pms \<and> (\<exists>p. st' = invalidate (store_package seg p st)))"
proof (induction pms)
  case Nil
  then show ?case by simp
next
  case (Cons pm pms)
  show ?case
  proof (cases "segmento pm = seg")
    case False
    with Cons show ?thesis by auto
  next
    case True
    show ?thesis
    proof (cases "dict_has (packages st) seg")
      case True
      with Cons.prems \<open>segmento pm = seg\<close> show ?thesis
        by (auto dest: cached_package_state)
    next
      case False
      obtain r1 st1 where f: "fetch_package d pm st = (r1, st1)" by (cases "fetch_package d pm st")
      from fetch_package_cases [OF f] show ?thesis
      proof
        assume "\<exists>e. r1 = Inl e \<and> st1 = st"
        with Cons.prems False True f show ?thesis by auto
      next
        assume "\<exists>p. r1 = Inr () \<and> st1 = store_package (segmento pm) p st"
        with Cons.prems False True f show ?thesis
          by (auto dest: cached_package_state)
      qed
    qed
  qed
qed

lemma loader_inv_init: "loader_inv (init v)"
  by (simp add: loader_inv_def init_def dict_keys_def)

lemma loader_inv_get_manifest:
  assumes "loader_inv st" and "get_manifest d st = (r, st')"
  shows "loader_inv st'"
proof (cases "manifest_c st")
  case (Some m)
  with assms show ?thesis by (simp add: get_manifest_cached)
next
  case None
  with assms(1) have "packages st = []"
    by (cases "packages st") (auto simp: loader_inv_def dict_keys_def)
  with assms get_manifest_frame [OF assms(2)] show ?thesis
    by (auto simp: loader_inv_def dict_keys_def loaded_blocks_def)
qed

lemma loader_inv_load_all:
  assumes "loader_inv st"
  shows "loader_inv (snd (load_all_packages d st))"
proof -
  have i: "loader_inv (invalidate st)"
    using assms by (simp add: loader_inv_def)
  obtain r1 st1 where g: "get_manifest d (invalidate st) = (r1, st1)"
    by (cases "get_manifest d (invalidate st)")
  have i1: "loader_inv st1" using loader_inv_get_manifest [OF i g] .
  have c1: "blocks_cache st1 = None" using get_manifest_frame [OF g] by simp
  show ?thesis
  proof (cases r1)
    case (Inl e)
    with g i1 show ?thesis by (simp add: load_all_packages_def)
  next
    case (Inr m)
    obtain r2 st2 where l: "load_loop d (manifest_pkgs m) st1 = (r2, st2)"
      by (cases "load_loop d (manifest_pkgs m) st1")
    have m1: "manifest_c st1 = Some m" using g Inr by (simp add: get_manifest_Inr)
    have k1: "set (dict_keys (packages st1)) \<subseteq> segmento ` set (manifest_pkgs m)"
      using i1 m1 by (auto simp: loader_inv_def)
    from load_loop_segs [OF l m1 c1 _ k1] have "loader_inv st2"
      by (auto simp: loader_inv_def)
    with g Inr l show ?thesis
      by (cases r2) (simp_all add: load_all_packages_def)
  qed
qed

lemma loader_inv_load_package:
  assumes "loader_inv st"
  shows "loader_inv (snd (load_package d seg st))"
proof -
  obtain r1 st1 where g: "get_manifest d st = (r1, st1)" by (cases "get_manifest d st")
  have i1: "loader_inv st1" using loader_inv_get_manifest [OF assms g] .
  show ?thesis
  proof (cases r1)
    case (Inl e)
    with g i1 show ?thesis by (simp add: load_package_def)
  next
    case (Inr m)
    obtain r2 st2 where f: "find_segment d seg (manifest_pkgs m) st1 = (r2, st2)"
      by (cases "find_segment d seg (manifest_pkgs m) st1")
    have m1: "manifest_c st1 = Some m" using g Inr by (simp add: get_manifest_Inr)
    from find_segment_cases [OF f] have "loader_inv st2"
    proof
      assume "st2 = st1" with i1 show ?thesis by simp
    next
      assume "seg \<in> segmento ` set (manifest_pkgs m) \<and> (\<exists>p. st2 = invalidate (store_package seg p st1))"
      with i1 m1 show ?thesis
        by (auto simp: loader_inv_def dict_keys_dict_set)
    qed
    with g Inr f show ?thesis by (simp add: load_package_def)
  qed
qed

lemma loader_inv_reload:
  assumes "loader_inv st"
  shows "loader_inv (snd (reload d st))"
proof -
  let ?st0 = "st\<lparr>manifest_c := None, packages := [], blocks_cache := None,
                 trace := trace st @ [ManifestCleared, PackagesCleared, CacheInvalidated]\<rparr>"
  have "loader_inv ?st0" by (simp add: loader_inv_def dict_keys_def)
  from loader_inv_load_all [OF this, of d] have "loader_inv (snd (load_all_packages d ?st0))" .
  moreover obtain r st' where l: "load_all_packages d ?st0 = (r, st')"
    by (cases "load_all_packages d ?st0")
  ultimately show ?thesis
    by (cases r) (simp_all add: reload_def)
qed

lemma loader_inv_all_blocks:
  assumes "loader_inv st"
  shows "loader_inv (snd (all_blocks st))"
  using assms
  by (auto simp: all_blocks_def loader_inv_def loaded_blocks_def Let_def split: option.splits)

lemma loader_inv_get_blocks_by_segment:
  assumes "loader_inv st"
  shows "loader_inv (snd (get_blocks_by_segment d seg st))"
proof (cases "dict_has (packages st) seg")
  case True
  with assms show ?thesis
    by (auto simp: get_blocks_by_segment_def cached_package_def split: option.splits)
next
  case False
  from loader_inv_load_package [OF assms, of d seg] False show ?thesis
    by (auto simp: get_blocks_by_segment_def cached_package_def split: option.splits prod.splits sum.splits)
qed

lemma reachable_inv: "reachable st \<Longrightarrow> loader_inv st"
proof (induction rule: reachable.induct)
  case (fresh v)
  show ?case by (rule loader_inv_init)
next
  case (step st d op)
  then show ?case
    by (cases op)
       (simp_all add: loader_inv_load_all loader_inv_load_package loader_inv_reload
          loader_inv_all_blocks loader_inv_get_blocks_by_segment)
qed

lemma find_segment_cached:
  "dict_has (packages st) seg \<Longrightarrow> seg \<in> segmento ` set pms \<Longrightarrow>
   find_segment d seg pms st = cached_package seg st"
  by (induction pms) auto

text \<open>
  Claim C10. On a state reached through the methods, \<^verbatim>\<open>load_package\<close> of a cached
  segment returns the cached package and the state is the same afterwards, ghost trace
  included (no write at all, so no invalidation), whatever the disk holds: no file is
  read and no hash is compared.
\<close>

theorem load_package_cached:
  assumes "reachable st" and "dict_has (packages st) seg"
  shows "\<exists>p. dict_get (packages st) seg = Some p \<and> load_package d seg st = (Inr p, st)"
proof -
  from assms(2) obtain p where p: "dict_get (packages st) seg = Some p"
    by (auto simp: dict_has_get)
  from reachable_inv [OF assms(1)] assms(2)
  obtain m where m: "manifest_c st = Some m" and s: "seg \<in> segmento ` set (manifest_pkgs m)"
    by (auto simp: loader_inv_def dict_has_def)
  have "load_package d seg st = cached_package seg st"
    using m s assms(2) by (simp add: load_package_def get_manifest_cached find_segment_cached)
  with p show ?thesis by (simp add: cached_package_def)
qed

lemma dict_set_fresh: "k \<notin> set (dict_keys d) \<Longrightarrow> dict_set k v d = d @ [(k, v)]"
  by (induction d) (auto simp: dict_keys_def)

lemma fetch_package_Inr:
  "fetch_package d pm st = (Inr u, st') \<Longrightarrow>
     \<exists>f p. package_files d (file_rel pm) = Some f \<and> json_doc f = Parsed p
          \<and> (validate_integrity st \<longrightarrow> sha256_hex f = hash_integridade pm)
          \<and> st' = store_package (segmento pm) p st"
  by (auto simp: fetch_package_def validate_hash_def read_json_def
           split: sum.splits if_splits option.splits parse.splits)

lemma fetch_package_loadable:
  "loadable (validate_integrity st) d pm \<Longrightarrow>
     \<exists>p. fetch_package d pm st = (Inr (), store_package (segmento pm) p st)"
  by (cases "json_doc (the (package_files d (file_rel pm)))")
     (auto simp: loadable_def fetch_package_def validate_hash_def read_json_def
           split: option.splits)

lemma loadable_exists: "loadable v d pm \<Longrightarrow> package_files d (file_rel pm) \<noteq> None"
  by (auto simp: loadable_def split: option.splits)

lemma load_loop_append:
  "load_loop d (xs @ ys) st =
     (case load_loop d xs st of (Inl e, st') \<Rightarrow> (Inl e, st') | (Inr _, st') \<Rightarrow> load_loop d ys st')"
  by (induction xs arbitrary: st) (auto split: prod.splits sum.splits)

lemma load_loop_loadable:
  "\<forall>q \<in> set pre. loadable (validate_integrity st) d q \<Longrightarrow>
   \<exists>st'. load_loop d pre st = (Inr (), st')
        \<and> validate_integrity st' = validate_integrity st
        \<and> set (dict_keys (packages st')) = set (dict_keys (packages st)) \<union> segmento ` set pre
        \<and> (\<forall>s. s \<notin> segmento ` set pre \<longrightarrow> dict_get (packages st') s = dict_get (packages st) s)"
proof (induction pre arbitrary: st)
  case Nil
  show ?case by simp
next
  case (Cons pm pre)
  from Cons.prems have lp: "loadable (validate_integrity st) d pm" by simp
  from fetch_package_loadable [OF lp] obtain p
    where f: "fetch_package d pm st = (Inr (), store_package (segmento pm) p st)" by blast
  let ?st1 = "store_package (segmento pm) p st"
  have "\<forall>q \<in> set pre. loadable (validate_integrity ?st1) d q" using Cons.prems by simp
  from Cons.IH [OF this] obtain st' where
    l: "load_loop d pre ?st1 = (Inr (), st')"
    and v: "validate_integrity st' = validate_integrity ?st1"
    and k: "set (dict_keys (packages st')) = set (dict_keys (packages ?st1)) \<union> segmento ` set pre"
    and g: "\<forall>s. s \<notin> segmento ` set pre \<longrightarrow> dict_get (packages st') s = dict_get (packages ?st1) s"
    by blast
  have "load_loop d (pm # pre) st = (Inr (), st')"
    using loadable_exists [OF lp] f l by simp
  moreover have "validate_integrity st' = validate_integrity st" using v by simp
  moreover have "set (dict_keys (packages st')) = set (dict_keys (packages st)) \<union> segmento ` set (pm # pre)"
    using k by (auto simp: dict_keys_dict_set)
  moreover have "\<forall>s. s \<notin> segmento ` set (pm # pre) \<longrightarrow> dict_get (packages st') s = dict_get (packages st) s"
    using g by (auto simp: dict_get_dict_set)
  ultimately show ?case by blast
qed

lemma get_manifest_invalidate:
  "fst (get_manifest d (invalidate st)) = fst (get_manifest d st)"
  by (auto simp: get_manifest_def split: option.splits sum.splits)

lemma load_loop_trace:
  "load_loop d pms st = (r, st') \<Longrightarrow>
     \<exists>evs. trace st' = trace st @ evs \<and> CacheInvalidated \<notin> set evs"
proof (induction pms arbitrary: st)
  case Nil
  then show ?case by simp
next
  case (Cons pm pms)
  show ?case
  proof (cases "package_files d (file_rel pm) = None")
    case True
    with Cons.prems show ?thesis by simp
  next
    case False
    obtain r1 st1 where f: "fetch_package d pm st = (r1, st1)" by (cases "fetch_package d pm st")
    from fetch_package_cases [OF f] show ?thesis
    proof
      assume "\<exists>e. r1 = Inl e \<and> st1 = st"
      with Cons.prems False f show ?thesis by auto
    next
      assume "\<exists>p. r1 = Inr () \<and> st1 = store_package (segmento pm) p st"
      then obtain p where r1: "r1 = Inr ()" and st1: "st1 = store_package (segmento pm) p st" by blast
      from Cons.prems False f r1 have l: "load_loop d pms st1 = (r, st')" by simp
      from Cons.IH [OF l] obtain evs where "trace st' = trace st1 @ evs" "CacheInvalidated \<notin> set evs"
        by blast
      then have "trace st' = trace st @ (PackageStored (segmento pm) # evs)
                 \<and> CacheInvalidated \<notin> set (PackageStored (segmento pm) # evs)"
        using st1 by simp
      then show ?thesis by blast
    qed
  qed
qed

lemma get_manifest_trace:
  "get_manifest d st = (r, st') \<Longrightarrow>
     \<exists>evs. trace st' = trace st @ evs \<and> CacheInvalidated \<notin> set evs"
  by (auto simp: get_manifest_def split: option.splits sum.splits)

text \<open>
  Claim C8, as the code has it. The writes of one call of \<^verbatim>\<open>load_all_packages\<close> start
  with the invalidation of the flat cache, and there is no other invalidation among
  them: the cache is invalidated once, before the manifest is read and before any
  package is stored.
\<close>

theorem load_all_invalidates_once_first:
  "\<exists>evs. trace (snd (load_all_packages d st)) = trace st @ CacheInvalidated # evs
         \<and> CacheInvalidated \<notin> set evs"
proof -
  obtain r1 st1 where g: "get_manifest d (invalidate st) = (r1, st1)"
    by (cases "get_manifest d (invalidate st)")
  from get_manifest_trace [OF g] obtain evs1
    where t1: "trace st1 = trace st @ CacheInvalidated # evs1" and n1: "CacheInvalidated \<notin> set evs1"
    by auto
  show ?thesis
  proof (cases r1)
    case (Inl e)
    with g t1 n1 show ?thesis by (simp add: load_all_packages_def)
  next
    case (Inr m)
    obtain r2 st2 where l: "load_loop d (manifest_pkgs m) st1 = (r2, st2)"
      by (cases "load_loop d (manifest_pkgs m) st1")
    from load_loop_trace [OF l] obtain evs2
      where t2: "trace st2 = trace st1 @ evs2" and n2: "CacheInvalidated \<notin> set evs2" by blast
    have "snd (load_all_packages d st) = st2"
      using g Inr l by (cases r2) (simp_all add: load_all_packages_def)
    moreover have "trace st2 = trace st @ CacheInvalidated # (evs1 @ evs2)
                   \<and> CacheInvalidated \<notin> set (evs1 @ evs2)"
      using t1 t2 n1 n2 by simp
    ultimately show ?thesis by metis
  qed
qed

lemma load_loop_blocks_fresh:
  "load_loop d pms st = (Inr u, st') \<Longrightarrow> distinct (map segmento pms) \<Longrightarrow>
   segmento ` set pms \<inter> set (dict_keys (packages st)) = {} \<Longrightarrow>
   loaded_blocks st' = loaded_blocks st @ concat (map (file_blocks d) pms)
   \<and> blocks_cache st' = blocks_cache st"
proof (induction pms arbitrary: st)
  case Nil
  then show ?case by simp
next
  case (Cons pm pms)
  from Cons.prems(1) have ex: "package_files d (file_rel pm) \<noteq> None"
    by (auto split: if_splits)
  obtain r1 st1 where f: "fetch_package d pm st = (r1, st1)" by (cases "fetch_package d pm st")
  from Cons.prems(1) ex f obtain u1 where r1: "r1 = Inr u1" and l: "load_loop d pms st1 = (Inr u, st')"
    by (cases r1) auto
  from fetch_package_Inr [OF f [unfolded r1]] obtain fl p where
    fl: "package_files d (file_rel pm) = Some fl" and p: "json_doc fl = Parsed p"
    and st1: "st1 = store_package (segmento pm) p st" by blast
  have fresh: "segmento pm \<notin> set (dict_keys (packages st))" using Cons.prems(3) by auto
  have b1: "loaded_blocks st1 = loaded_blocks st @ file_blocks d pm"
    using st1 fl p by (simp add: loaded_blocks_def dict_set_fresh [OF fresh] dict_values_def file_blocks_def)
  have d1: "segmento ` set pms \<inter> set (dict_keys (packages st1)) = {}"
    using Cons.prems(2,3) st1 by (auto simp: dict_keys_dict_set)
  from Cons.IH [OF l _ d1] Cons.prems(2) b1 st1 show ?case by simp
qed

lemmas ex_defs =
  mk_block_def ex_block_a_def ex_block_b_def ex_pkg_a_def ex_pkg_b_def ex_meta_a_def
  ex_meta_b_def ex_manifest_def ex_file_a_def ex_file_b_def ex_file_a_changed_def
  ex_file_b_changed_def mk_disk_def ex_disk_def ex_disk_a_changed_def ex_disk_b_changed_def
  ex_disk_b_missing_def ex_disk_a_missing_b_changed_def ex_disk_a_changed_b_missing_def

lemmas loader_defs =
  load_all_packages_def get_manifest_def load_manifest_def invalidate_def init_def
  manifest_pkgs_def fetch_package_def validate_hash_def read_json_def store_package_def
  load_package_def cached_package_def dict_has_def dict_get_def dict_keys_def dict_values_def

lemma ex_loaded_eq:
  "ex_loaded =
     \<lparr>validate_integrity = True, manifest_c = Some ex_manifest,
      packages = [(''a'', ex_pkg_a), (''b'', ex_pkg_b)], blocks_cache = None,
      trace = [CacheInvalidated, ManifestCached, PackageStored ''a'', PackageStored ''b'']\<rparr>"
  by (simp add: ex_loaded_def loader_defs ex_manifest_def ex_meta_a_def ex_meta_b_def
        ex_disk_def mk_disk_def ex_file_a_def ex_file_b_def)

lemma load_all_after_prefix:
  assumes "fst (get_manifest d st) = Inr m"
      and "manifest_pkgs m = pre @ rest"
      and "\<forall>q \<in> set pre. loadable (validate_integrity st) d q"
  shows "\<exists>st'. validate_integrity st' = validate_integrity st
        \<and> set (dict_keys (packages st')) = set (dict_keys (packages st)) \<union> segmento ` set pre
        \<and> (\<forall>s. s \<notin> segmento ` set pre \<longrightarrow> dict_get (packages st') s = dict_get (packages st) s)
        \<and> load_all_packages d st =
            (case load_loop d rest st' of
               (Inl e, st2) \<Rightarrow> (Inl e, st2)
             | (Inr _, st2) \<Rightarrow> (Inr (packages st2), st2))"
proof -
  obtain r1 st1 where g: "get_manifest d (invalidate st) = (r1, st1)"
    by (cases "get_manifest d (invalidate st)")
  have r1: "r1 = Inr m"
    using assms(1) g get_manifest_invalidate [of d st] by simp
  from get_manifest_frame [OF g] have fr: "packages st1 = packages st"
    "validate_integrity st1 = validate_integrity st" by simp_all
  have "\<forall>q \<in> set pre. loadable (validate_integrity st1) d q" using assms(3) fr by simp
  from load_loop_loadable [OF this] obtain st' where
    l: "load_loop d pre st1 = (Inr (), st')"
    and v: "validate_integrity st' = validate_integrity st1"
    and k: "set (dict_keys (packages st')) = set (dict_keys (packages st1)) \<union> segmento ` set pre"
    and gt: "\<forall>s. s \<notin> segmento ` set pre \<longrightarrow> dict_get (packages st') s = dict_get (packages st1) s"
    by blast
  have "load_all_packages d st =
            (case load_loop d rest st' of
               (Inl e, st2) \<Rightarrow> (Inl e, st2)
             | (Inr _, st2) \<Rightarrow> (Inr (packages st2), st2))"
    using g r1 l assms(2) by (simp add: load_all_packages_def load_loop_append)
  with v k gt fr show ?thesis by auto
qed

text \<open>
  Claim C1, as the code has it. With hash validation on, let the descriptor \<open>pm\<close> be the
  first that fails, its file being present with a digest other than the recorded one
  (the descriptors before it exist, verify and parse). Then \<^verbatim>\<open>load_all_packages\<close> fails
  with \<^verbatim>\<open>IntegrityError\<close> for that segment, and the pass does not touch the cache entry
  of the segment (no earlier descriptor naming it): the entry is what it was before the
  call, absent if the segment had not been loaded, the package loaded earlier if it had.
\<close>

theorem integrity_failure_keeps_entry:
  assumes "validate_integrity st"
      and "fst (get_manifest d st) = Inr m"
      and "manifest_pkgs m = pre @ pm # post"
      and "\<forall>q \<in> set pre. loadable True d q"
      and "package_files d (file_rel pm) = Some f"
      and "sha256_hex f \<noteq> hash_integridade pm"
      and "segmento pm \<notin> segmento ` set pre"
  shows "fst (load_all_packages d st) = Inl (IntegrityError (segmento pm))
       \<and> dict_get (packages (snd (load_all_packages d st))) (segmento pm)
           = dict_get (packages st) (segmento pm)"
proof -
  from assms(1,4) have "\<forall>q \<in> set pre. loadable (validate_integrity st) d q" by simp
  from load_all_after_prefix [OF assms(2,3) this] obtain st' where
    v: "validate_integrity st' = validate_integrity st"
    and gt: "\<forall>s. s \<notin> segmento ` set pre \<longrightarrow> dict_get (packages st') s = dict_get (packages st) s"
    and l: "load_all_packages d st =
            (case load_loop d (pm # post) st' of
               (Inl e, st2) \<Rightarrow> (Inl e, st2)
             | (Inr _, st2) \<Rightarrow> (Inr (packages st2), st2))"
    by blast
  have "load_loop d (pm # post) st' = (Inl (IntegrityError (segmento pm)), st')"
    using assms(1,5,6) v by (simp add: fetch_package_def validate_hash_def)
  with l have "load_all_packages d st = (Inl (IntegrityError (segmento pm)), st')" by simp
  with gt assms(7) show ?thesis by simp
qed

text \<open>
  Claim C6, as the code has it. Let the descriptor \<open>pm\<close> be the first that fails, its
  file being absent (the descriptors before it exist, verify when hashes are validated,
  and parse). Then \<^verbatim>\<open>load_all_packages\<close> fails with the package-file-not-found error
  and the segment of every earlier descriptor is in the package cache.
\<close>

theorem missing_file_no_rollback:
  assumes "fst (get_manifest d st) = Inr m"
      and "manifest_pkgs m = pre @ pm # post"
      and "\<forall>q \<in> set pre. loadable (validate_integrity st) d q"
      and "package_files d (file_rel pm) = None"
  shows "fst (load_all_packages d st) = Inl (PackageFileNotFound (file_rel pm))
       \<and> (\<forall>q \<in> set pre. dict_has (packages (snd (load_all_packages d st))) (segmento q))"
proof -
  from load_all_after_prefix [OF assms(1,2,3)] obtain st' where
    k: "set (dict_keys (packages st')) = set (dict_keys (packages st)) \<union> segmento ` set pre"
    and l: "load_all_packages d st =
            (case load_loop d (pm # post) st' of
               (Inl e, st2) \<Rightarrow> (Inl e, st2)
             | (Inr _, st2) \<Rightarrow> (Inr (packages st2), st2))"
    by blast
  have "load_loop d (pm # post) st' = (Inl (PackageFileNotFound (file_rel pm)), st')"
    using assms(4) by simp
  with l have "load_all_packages d st = (Inl (PackageFileNotFound (file_rel pm)), st')" by simp
  with k show ?thesis by (auto simp: dict_has_def)
qed

lemma load_loop_cache:
  "load_loop d pms st = (r, st') \<Longrightarrow> blocks_cache st' = blocks_cache st"
proof (induction pms arbitrary: st)
  case Nil
  then show ?case by simp
next
  case (Cons pm pms)
  show ?case
  proof (cases "package_files d (file_rel pm) = None")
    case True
    with Cons.prems show ?thesis by simp
  next
    case False
    obtain r1 st1 where f: "fetch_package d pm st = (r1, st1)" by (cases "fetch_package d pm st")
    from fetch_package_cases [OF f] show ?thesis
    proof
      assume "\<exists>e. r1 = Inl e \<and> st1 = st"
      with Cons.prems False f show ?thesis by auto
    next
      assume "\<exists>p. r1 = Inr () \<and> st1 = store_package (segmento pm) p st"
      then obtain p where r1: "r1 = Inr ()" and st1: "st1 = store_package (segmento pm) p st" by blast
      from Cons.prems False f r1 have l: "load_loop d pms st1 = (r, st')" by simp
      from Cons.IH [OF l] st1 show ?thesis by simp
    qed
  qed
qed

lemma load_all_Inr:
  assumes "load_all_packages d st = (Inr r, st')"
  shows "\<exists>m st1 u. get_manifest d (invalidate st) = (Inr m, st1)
          \<and> load_loop d (manifest_pkgs m) st1 = (Inr u, st') \<and> r = packages st'"
proof -
  obtain r1 st1 where g: "get_manifest d (invalidate st) = (r1, st1)"
    by (cases "get_manifest d (invalidate st)")
  from assms g obtain m where r1: "r1 = Inr m"
    by (cases r1) (auto simp: load_all_packages_def)
  obtain r2 st2 where l: "load_loop d (manifest_pkgs m) st1 = (r2, st2)"
    by (cases "load_loop d (manifest_pkgs m) st1")
  from assms g r1 l obtain u where "r2 = Inr u" "st2 = st'" "r = packages st'"
    by (cases r2) (auto simp: load_all_packages_def)
  with g r1 l show ?thesis by blast
qed

text \<open>
  Claim C2, as the code has it. After a successful \<^verbatim>\<open>load_all_packages\<close>, \<^verbatim>\<open>_all_blocks\<close>
  returns the concatenation of the cached packages' \<^verbatim>\<open>knowledge_blocks\<close> in the order
  of the package cache, which is the order in which the segments were first inserted.
  This is the manifest order when the package cache was empty before the call and the
  manifest names every segment once.
\<close>

theorem flat_cache_after_load_all:
  assumes "load_all_packages d st = (Inr r, st')"
  shows "fst (all_blocks st') = concat (map pkg_blocks (dict_values (packages st')))
       \<and> (packages st = [] \<and> fst (get_manifest d st) = Inr m
            \<and> distinct (map segmento (manifest_pkgs m))
          \<longrightarrow> fst (all_blocks st') = concat (map (file_blocks d) (manifest_pkgs m)))"
proof -
  from load_all_Inr [OF assms] obtain m' st1 u where
    g: "get_manifest d (invalidate st) = (Inr m', st1)"
    and l: "load_loop d (manifest_pkgs m') st1 = (Inr u, st')" by blast
  from get_manifest_frame [OF g] have fr: "packages st1 = packages st" "blocks_cache st1 = None"
    by simp_all
  have c: "blocks_cache st' = None" using load_loop_cache [OF l] fr by simp
  then have a: "fst (all_blocks st') = loaded_blocks st'"
    by (simp add: all_blocks_def loaded_blocks_def Let_def)
  have b: "fst (all_blocks st') = concat (map (file_blocks d) (manifest_pkgs m))"
    if h: "packages st = []" "fst (get_manifest d st) = Inr m" "distinct (map segmento (manifest_pkgs m))"
  proof -
    have "m' = m" using g h(2) get_manifest_invalidate [of d st] by simp
    moreover have "segmento ` set (manifest_pkgs m) \<inter> set (dict_keys (packages st1)) = {}"
      using fr h(1) by (simp add: dict_keys_def)
    ultimately have "loaded_blocks st' = loaded_blocks st1 @ concat (map (file_blocks d) (manifest_pkgs m))"
      using load_loop_blocks_fresh [OF l] h(3) by simp
    with a fr h(1) show ?thesis by (simp add: loaded_blocks_def dict_values_def)
  qed
  from a b show ?thesis by (auto simp: loaded_blocks_def)
qed

theorem load_package_cached_witness:
  "reachable ex_loaded \<and> dict_has (packages ex_loaded) ''a''
   \<and> load_package ex_disk_a_changed ''a'' ex_loaded = (Inr ex_pkg_a, ex_loaded)"
proof -
  have r: "reachable ex_loaded"
    unfolding ex_loaded_def using reachable.step [OF reachable.fresh, of ex_disk LoadAll True] by simp
  have h: "dict_has (packages ex_loaded) ''a''"
    by (simp add: ex_loaded_eq dict_has_def dict_keys_def)
  from load_package_cached [OF r h, of ex_disk_a_changed] r h show ?thesis
    by (simp add: ex_loaded_eq dict_get_def)
qed

lemma ex_manifest_pkgs: "manifest_pkgs ex_manifest = [ex_meta_a, ex_meta_b]"
  by (simp add: manifest_pkgs_def ex_manifest_def)

lemma ex_get_manifest_loaded: "fst (get_manifest d ex_loaded) = Inr ex_manifest"
  by (simp add: get_manifest_def ex_loaded_eq)

theorem integrity_failure_keeps_entry_witness:
  "validate_integrity ex_loaded
   \<and> fst (get_manifest ex_disk_b_changed ex_loaded) = Inr ex_manifest
   \<and> manifest_pkgs ex_manifest = [ex_meta_a] @ ex_meta_b # []
   \<and> loadable True ex_disk_b_changed ex_meta_a
   \<and> package_files ex_disk_b_changed (file_rel ex_meta_b) = Some ex_file_b_changed
   \<and> sha256_hex ex_file_b_changed \<noteq> hash_integridade ex_meta_b
   \<and> fst (load_all_packages ex_disk_b_changed ex_loaded) = Inl (IntegrityError ''b'')
   \<and> dict_get (packages (snd (load_all_packages ex_disk_b_changed ex_loaded))) ''b'' = Some ex_pkg_b"
proof -
  have 1: "validate_integrity ex_loaded" by (simp add: ex_loaded_eq)
  have 2: "fst (get_manifest ex_disk_b_changed ex_loaded) = Inr ex_manifest"
    by (rule ex_get_manifest_loaded)
  have 3: "manifest_pkgs ex_manifest = [ex_meta_a] @ ex_meta_b # []"
    by (simp add: ex_manifest_pkgs)
  have 4: "loadable True ex_disk_b_changed ex_meta_a"
    by (simp add: loadable_def ex_disk_b_changed_def mk_disk_def ex_meta_a_def ex_file_a_def)
  have 5: "package_files ex_disk_b_changed (file_rel ex_meta_b) = Some ex_file_b_changed"
    by (simp add: ex_disk_b_changed_def mk_disk_def ex_meta_b_def)
  have 6: "sha256_hex ex_file_b_changed \<noteq> hash_integridade ex_meta_b"
    by (simp add: ex_file_b_changed_def ex_meta_b_def)
  have 7: "segmento ex_meta_b \<notin> segmento ` set [ex_meta_a]"
    by (simp add: ex_meta_a_def ex_meta_b_def)
  have 8: "\<forall>q \<in> set [ex_meta_a]. loadable True ex_disk_b_changed q" using 4 by simp
  have 9: "dict_get (packages ex_loaded) (segmento ex_meta_b) = Some ex_pkg_b"
    by (simp add: ex_loaded_eq dict_get_def ex_meta_b_def)
  have 10: "segmento ex_meta_b = ''b''" by (simp add: ex_meta_b_def)
  from integrity_failure_keeps_entry [OF 1 2 3 8 5 6 7] 1 2 3 4 5 6 9 10 show ?thesis
    by simp
qed

text \<open>
  The segment \<open>a\<close> was loaded, then its file changed: the next \<^verbatim>\<open>load_all_packages\<close>
  fails with \<^verbatim>\<open>IntegrityError\<close> and the package loaded before is still cached. And when
  an earlier file is missing, the failure is not an \<^verbatim>\<open>IntegrityError\<close> although a later
  file has a wrong digest.
\<close>

theorem integrity_claim_counterexample:
  "package_files ex_disk_a_changed (file_rel ex_meta_a) = Some ex_file_a_changed
   \<and> sha256_hex ex_file_a_changed \<noteq> hash_integridade ex_meta_a
   \<and> fst (load_all_packages ex_disk_a_changed ex_loaded) = Inl (IntegrityError ''a'')
   \<and> dict_get (packages (snd (load_all_packages ex_disk_a_changed ex_loaded))) ''a'' = Some ex_pkg_a
   \<and> package_files ex_disk_a_missing_b_changed (file_rel ex_meta_b) = Some ex_file_b_changed
   \<and> sha256_hex ex_file_b_changed \<noteq> hash_integridade ex_meta_b
   \<and> fst (load_all_packages ex_disk_a_missing_b_changed (init True)) = Inl (PackageFileNotFound ''a.json'')"
  by (simp add: ex_loaded_eq loader_defs ex_defs)

theorem missing_file_no_rollback_witness:
  "fst (get_manifest ex_disk_b_missing (init True)) = Inr ex_manifest
   \<and> manifest_pkgs ex_manifest = [ex_meta_a] @ ex_meta_b # []
   \<and> loadable (validate_integrity (init True)) ex_disk_b_missing ex_meta_a
   \<and> package_files ex_disk_b_missing (file_rel ex_meta_b) = None
   \<and> fst (load_all_packages ex_disk_b_missing (init True)) = Inl (PackageFileNotFound ''b.json'')
   \<and> dict_has (packages (snd (load_all_packages ex_disk_b_missing (init True)))) ''a''"
proof -
  have 1: "fst (get_manifest ex_disk_b_missing (init True)) = Inr ex_manifest"
    by (simp add: get_manifest_def load_manifest_def init_def ex_disk_b_missing_def mk_disk_def)
  have 2: "manifest_pkgs ex_manifest = [ex_meta_a] @ ex_meta_b # []"
    by (simp add: ex_manifest_pkgs)
  have 3: "loadable (validate_integrity (init True)) ex_disk_b_missing ex_meta_a"
    by (simp add: loadable_def ex_disk_b_missing_def mk_disk_def ex_meta_a_def ex_file_a_def)
  have 4: "package_files ex_disk_b_missing (file_rel ex_meta_b) = None"
    by (simp add: ex_disk_b_missing_def mk_disk_def ex_meta_b_def)
  have 5: "\<forall>q \<in> set [ex_meta_a]. loadable (validate_integrity (init True)) ex_disk_b_missing q"
    using 3 by simp
  have 6: "file_rel ex_meta_b = ''b.json''" "segmento ex_meta_a = ''a''"
    by (simp_all add: ex_meta_a_def ex_meta_b_def)
  from missing_file_no_rollback [OF 1 2 5 4] 1 2 3 4 6 show ?thesis by simp
qed

text \<open>
  The file of \<open>b\<close> is absent, but the file of \<open>a\<close>, listed first, has a wrong digest:
  the failure is an \<^verbatim>\<open>IntegrityError\<close> and \<open>a\<close> is not cached.
\<close>

theorem missing_file_claim_counterexample:
  "package_files ex_disk_a_changed_b_missing (file_rel ex_meta_b) = None
   \<and> fst (load_all_packages ex_disk_a_changed_b_missing (init True)) = Inl (IntegrityError ''a'')
   \<and> \<not> dict_has (packages (snd (load_all_packages ex_disk_a_changed_b_missing (init True)))) ''a''"
  by (simp add: loader_defs ex_defs)

text \<open>
  The writes of a pass over two packages: the invalidation is the first, not the last.
\<close>

theorem invalidation_at_end_counterexample:
  "trace (snd (load_all_packages ex_disk (init True)))
     = [CacheInvalidated, ManifestCached, PackageStored ''a'', PackageStored ''b'']"
  by (simp add: loader_defs ex_defs)

text \<open>
  The manifest lists \<open>a\<close> then \<open>b\<close>. After \<^verbatim>\<open>load_package("b")\<close> and a successful
  \<^verbatim>\<open>load_all_packages\<close> the flat cache has the blocks of \<open>b\<close> first.
\<close>

theorem manifest_order_counterexample:
  "fst (load_all_packages ex_disk (snd (load_package ex_disk ''b'' (init True))))
     = Inr [(''b'', ex_pkg_b), (''a'', ex_pkg_a)]
   \<and> fst (all_blocks ex_b_first) = [ex_block_b, ex_block_a]
   \<and> concat (map (file_blocks ex_disk) (manifest_pkgs ex_manifest)) = [ex_block_a, ex_block_b]
   \<and> ex_block_a \<noteq> ex_block_b"
  by (simp add: ex_b_first_def loader_defs all_blocks_def file_blocks_def pkg_blocks_def ex_defs
        Let_def)

theorem flat_cache_after_load_all_witness:
  "load_all_packages ex_disk (init True) = (Inr [(''a'', ex_pkg_a), (''b'', ex_pkg_b)], ex_loaded)
   \<and> packages (init True) = [] \<and> fst (get_manifest ex_disk (init True)) = Inr ex_manifest
   \<and> distinct (map segmento (manifest_pkgs ex_manifest))
   \<and> fst (all_blocks ex_loaded) = [ex_block_a, ex_block_b]"
proof -
  have 1: "load_all_packages ex_disk (init True) = (Inr [(''a'', ex_pkg_a), (''b'', ex_pkg_b)], ex_loaded)"
    unfolding ex_loaded_eq by (simp add: loader_defs ex_defs)
  have 2: "packages (init True) = []" by (simp add: init_def)
  have 3: "fst (get_manifest ex_disk (init True)) = Inr ex_manifest"
    by (simp add: get_manifest_def load_manifest_def init_def ex_disk_def mk_disk_def)
  have 4: "distinct (map segmento (manifest_pkgs ex_manifest))"
    by (simp add: ex_manifest_pkgs ex_meta_a_def ex_meta_b_def)
  have 5: "concat (map (file_blocks ex_disk) (manifest_pkgs ex_manifest)) = [ex_block_a, ex_block_b]"
    by (simp add: ex_manifest_pkgs file_blocks_def pkg_blocks_def ex_disk_def mk_disk_def
          ex_meta_a_def ex_meta_b_def ex_file_a_def ex_file_b_def ex_pkg_a_def ex_pkg_b_def)
  from flat_cache_after_load_all [OF 1, of ex_manifest, THEN conjunct2] 2 3 4 5
  have "fst (all_blocks ex_loaded) = [ex_block_a, ex_block_b]" by simp
  with 1 2 3 4 show ?thesis by simp
qed

























text \<open>
  Claim C9. On an empty dictionary, or one whose \<^verbatim>\<open>content\<close> and \<^verbatim>\<open>text\<close> are empty or
  absent, \<^verbatim>\<open>has_significant_changes\<close> is false, whatever the index and the ratio are.
  The function has no raising path.
\<close>

theorem empty_content_not_significant:
  "nc = [] \<or> content_text nc = [] \<Longrightarrow> \<not> has_significant_changes ratio det nc"
  by (auto simp: has_significant_changes_def Let_def)

theorem empty_content_not_significant_witness:
  "content_text ex_empty_fields = []
   \<and> \<not> has_significant_changes ex_ratio ex_detector ex_empty_fields
   \<and> \<not> has_significant_changes ex_ratio ex_detector []"
proof -
  have c: "content_text ex_empty_fields = []" by code_simp
  from empty_content_not_significant [of ex_empty_fields ex_ratio ex_detector] c
  have 1: "\<not> has_significant_changes ex_ratio ex_detector ex_empty_fields" by simp
  from empty_content_not_significant [of "[]" ex_ratio ex_detector]
  have 2: "\<not> has_significant_changes ex_ratio ex_detector []" by simp
  from c 1 2 show ?thesis by simp
qed












end
